theory Spec2Isabelle
  imports Main
begin

section \<open>Data model\<close>

text \<open>
  Identifiers (primary keys and user identifiers) are natural numbers. Every table is the
  list of its rows. The handlers below take the committed table as the request finds it
  and return the response together with the committed table the request leaves behind.
\<close>

type_synonym uid = nat

text \<open>
  Modelled from the spec: the \<^verbatim>\<open>Section\<close> class of
  \<^verbatim>\<open>research_assistant/outline/models.py\<close> is not among the sources. A Section has an
  identifier, a required title, an optional summary, an integer order, an owner and a
  nullable self-referencing parent link (null means root). The creation timestamp is
  left out: nothing below reads it.
\<close>

record Section =
  sec_id :: nat
  sec_title :: string
  sec_summary :: "string option"
  sec_parent_id :: "nat option"
  sec_order :: int
  sec_user_id :: uid

text \<open>
  A node descriptor of the JSON payload: \<open>item_title = None\<close> is a descriptor without the
  key \<^verbatim>\<open>title\<close>; a descriptor without \<^verbatim>\<open>subsections\<close> has the empty list.
\<close>

datatype item = Item (item_title: "string option") (item_summary: "string option")
  (item_subsections: "item list")

datatype error = BadRequest string | NotFound | InternalError

text \<open>
  The unit of work of one request: \<open>pending\<close> is what the session sees (flushed rows
  included), \<open>committed\<close> is what survives the request.
\<close>

record store =
  committed :: "Section list"
  pending :: "Section list"

definition begin_session :: "Section list \<Rightarrow> store" where
  "begin_session rows = \<lparr>committed = rows, pending = rows\<rparr>"

definition commit :: "store \<Rightarrow> store" where
  "commit st = st\<lparr>committed := pending st\<rparr>"

definition rollback :: "store \<Rightarrow> store" where
  "rollback st = st\<lparr>pending := committed st\<rparr>"

text \<open>
  Modelled from the spec: the generated identifier of a flushed row. The configured
  database is SQLite, whose integer primary key of a new row is one more than the
  largest in the table.
\<close>

definition fresh_id :: "Section list \<Rightarrow> nat" where
  "fresh_id rows = Suc (foldr max (map sec_id rows) 0)"

section \<open>Outline: rebuilding the tree\<close>

text \<open>
  \<^verbatim>\<open>_recreate_sections(items, user_id, parent_id)\<close>: \<open>recreate_loop idx\<close> is the
  \<^verbatim>\<open>for idx, item in enumerate(items)\<close> loop from position \<open>idx\<close> on, and
  \<open>recreate_children\<close> is the inner loop, which calls
  \<^verbatim>\<open>_recreate_sections([child], user_id, parent_id=sec.id)\<close> on each child in turn: a
  one-element list, enumerated from 0. A descriptor without a title raises
  \<^verbatim>\<open>KeyError\<close>, which ends the request with an internal error.
\<close>

fun recreate_loop :: "int \<Rightarrow> item list \<Rightarrow> uid \<Rightarrow> nat option \<Rightarrow> Section list \<Rightarrow> error + Section list"
  and recreate_children :: "item list \<Rightarrow> uid \<Rightarrow> nat \<Rightarrow> Section list \<Rightarrow> error + Section list"
where
  "recreate_loop idx [] user_id parent_id rows = Inr rows"
| "recreate_loop idx (Item title summary subsections # rest) user_id parent_id rows =
     (case title of
        None \<Rightarrow> Inl InternalError
      | Some t \<Rightarrow>
          let sec = \<lparr>sec_id = fresh_id rows, sec_title = t, sec_summary = summary,
                     sec_parent_id = parent_id, sec_order = idx, sec_user_id = user_id\<rparr>
          in (case recreate_children subsections user_id (sec_id sec) (rows @ [sec]) of
                Inl e \<Rightarrow> Inl e
              | Inr rows' \<Rightarrow> recreate_loop (idx + 1) rest user_id parent_id rows'))"
| "recreate_children [] user_id pid rows = Inr rows"
| "recreate_children (child # cs) user_id pid rows =
     (case recreate_loop 0 [child] user_id (Some pid) rows of
        Inl e \<Rightarrow> Inl e
      | Inr rows' \<Rightarrow> recreate_children cs user_id pid rows')"

definition recreate_sections :: "item list \<Rightarrow> uid \<Rightarrow> nat option \<Rightarrow> Section list \<Rightarrow> error + Section list" where
  "recreate_sections items user_id parent_id rows = recreate_loop 0 items user_id parent_id rows"

text \<open>
  \<^verbatim>\<open>save_outline\<close>. The payload's \<^verbatim>\<open>outline\<close> key may be absent (\<open>None\<close>), which
  reads as the empty list. The owner's rows are deleted and that is committed; then the
  tree is recreated and committed. An exception ends the request: what the session had
  not committed is rolled back.
\<close>

definition delete_by_user :: "uid \<Rightarrow> Section list \<Rightarrow> Section list" where
  "delete_by_user u rows = filter (\<lambda>s. sec_user_id s \<noteq> u) rows"

definition save_outline :: "uid \<Rightarrow> item list option \<Rightarrow> Section list \<Rightarrow> (error + string) \<times> Section list" where
  "save_outline u payload db =
     (let outline = (case payload of None \<Rightarrow> [] | Some xs \<Rightarrow> xs) in
      if outline = [] then (Inl (BadRequest ''Cannot save empty outline!''), db)
      else
        let st0 = begin_session db;
            st1 = commit (st0\<lparr>pending := delete_by_user u (pending st0)\<rparr>)
        in (case recreate_sections outline u None (pending st1) of
              Inl e \<Rightarrow> (Inl e, committed (rollback st1))
            | Inr rows \<Rightarrow> (Inr ''Outline saved'', committed (commit (st1\<lparr>pending := rows\<rparr>)))))"

section \<open>Outline: deleting a subtree\<close>

text \<open>
  Modelled from the spec: the \<^verbatim>\<open>subsections\<close> relationship of the absent
  \<^verbatim>\<open>Section\<close> class, the rows whose parent link is the node.
\<close>

definition subsections :: "Section list \<Rightarrow> nat \<Rightarrow> Section list" where
  "subsections rows node = filter (\<lambda>s. sec_parent_id s = Some node) rows"

text \<open>
  \<^verbatim>\<open>_delete_subtree(node)\<close>: the children are snapshotted
  (\<^verbatim>\<open>list(node.subsections)\<close>), each is deleted recursively, then the node itself.
  The first argument bounds the depth of the recursion, as the interpreter's recursion
  limit does; \<open>None\<close> is \<^verbatim>\<open>RecursionError\<close>.
\<close>

fun delete_subtree :: "nat \<Rightarrow> nat \<Rightarrow> Section list \<Rightarrow> Section list option"
  and delete_each :: "nat \<Rightarrow> nat list \<Rightarrow> Section list \<Rightarrow> Section list option"
where
  "delete_subtree 0 node rows = None"
| "delete_subtree (Suc k) node rows =
     (case delete_each k (map sec_id (subsections rows node)) rows of
        None \<Rightarrow> None
      | Some rows' \<Rightarrow> Some (filter (\<lambda>s. sec_id s \<noteq> node) rows'))"
| "delete_each k [] rows = Some rows"
| "delete_each k (child # cs) rows =
     (case delete_subtree k child rows of
        None \<Rightarrow> None
      | Some rows' \<Rightarrow> delete_each k cs rows')"

text \<open>
  \<^verbatim>\<open>delete_outline\<close>: the node is looked up by identifier and owner
  (\<^verbatim>\<open>first_or_404\<close>), its subtree is deleted and the session is committed.
\<close>

definition delete_outline :: "nat \<Rightarrow> nat \<Rightarrow> uid \<Rightarrow> Section list \<Rightarrow> (error + unit) \<times> Section list" where
  "delete_outline limit sid u db =
     (let st = begin_session db in
      case find (\<lambda>s. sec_id s = sid \<and> sec_user_id s = u) (pending st) of
        None \<Rightarrow> (Inl NotFound, db)
      | Some sec \<Rightarrow>
          (case delete_subtree limit (sec_id sec) (pending st) of
             None \<Rightarrow> (Inl InternalError, committed (rollback st))
           | Some rows \<Rightarrow> (Inr (), committed (commit (st\<lparr>pending := rows\<rparr>)))))"

text \<open>
  The parent-to-child relation on identifiers that a table holds, and the identifiers of
  a node's subtree: the node and everything reachable from it along that relation.
\<close>

definition child_rel :: "Section list \<Rightarrow> (nat \<times> nat) set" where
  "child_rel rows = {(p, c). \<exists>s \<in> set rows. sec_id s = c \<and> sec_parent_id s = Some p}"

definition subtree :: "Section list \<Rightarrow> nat \<Rightarrow> nat set" where
  "subtree rows node = (child_rel rows)\<^sup>* `` {node}"

section \<open>Planning: phases and tasks\<close>

text \<open>
  Modelled from the spec: the \<^verbatim>\<open>Phase\<close> and \<^verbatim>\<open>Task\<close> classes of
  \<^verbatim>\<open>research_assistant/planning/models.py\<close> are not among the sources. A Phase has a
  title, an owner and optional start, end and deadline dates; a Task belongs to one Phase
  and has an owner, a description and a completed flag. A date is the number of its day.
\<close>

record Phase =
  phase_id :: nat
  phase_title :: string
  phase_user_id :: uid
  phase_start_date :: "int option"
  phase_end_date :: "int option"
  phase_deadline :: "int option"

record Task =
  task_id :: nat
  task_phase_id :: nat
  task_user_id :: uid
  task_description :: string
  task_completed :: bool

text \<open>
  Modelled from the spec: the \<^verbatim>\<open>BrainEntry\<close> class of
  \<^verbatim>\<open>research_assistant/brain/models.py\<close>, with the columns the view fills in.
\<close>

record BrainEntry =
  be_id :: nat
  be_why :: "string option"
  be_what :: "string option"
  be_where :: "string option"
  be_when :: "string option"
  be_who :: "string option"
  be_messages :: string
  be_overall_feedback :: string
  be_completed :: bool
  be_user_id :: uid

record planning_db =
  phases :: "Phase list"
  tasks :: "Task list"
  entries :: "BrainEntry list"

text \<open>
  Modelled from the spec: the \<^verbatim>\<open>tasks\<close> relationship of a Phase, and the generated
  identifier of a new row (one more than the largest in the table, as for Sections).
\<close>

definition phase_tasks :: "planning_db \<Rightarrow> Phase \<Rightarrow> Task list" where
  "phase_tasks db phase = filter (\<lambda>t. task_phase_id t = phase_id phase) (tasks db)"

definition next_id :: "nat list \<Rightarrow> nat" where
  "next_id ids = Suc (foldr max ids 0)"

section \<open>Brainstorm: saving a session\<close>

text \<open>
  The JSON body of \<^verbatim>\<open>/brainstorm/save\<close>. The five fields of \<^verbatim>\<open>fiveW\<close> are \<open>None\<close>
  when absent (or when \<^verbatim>\<open>fiveW\<close> itself is); \<open>p_messages\<close> is the serialised message list.
\<close>

record brainstorm_payload =
  p_why :: "string option"
  p_what :: "string option"
  p_where :: "string option"
  p_when :: "string option"
  p_who :: "string option"
  p_messages :: string
  p_overall_feedback :: string
  p_completed :: bool

text \<open>Python's truth value of an optional string: \<^verbatim>\<open>None\<close> and \<^verbatim>\<open>''\<close> are false.\<close>

fun truthy :: "string option \<Rightarrow> bool" where
  "truthy None = False"
| "truthy (Some s) = (s \<noteq> [])"

text \<open>
  \<^verbatim>\<open>save_brainstorm_session\<close>: the entry is added; when all five fields are filled in,
  the first Phase titled 'Define Topic & Question' is looked up (by title only) and, if
  there is one with no task described 'Brainstorm Complete', such a task is appended to
  it. One commit ends the request. The result is the new entry's identifier and the
  tables after the commit.
\<close>

definition save_brainstorm_session :: "uid \<Rightarrow> brainstorm_payload \<Rightarrow> planning_db \<Rightarrow> nat \<times> planning_db" where
  "save_brainstorm_session user_id data db =
     (let entry = \<lparr>be_id = next_id (map be_id (entries db)),
                    be_why = p_why data, be_what = p_what data, be_where = p_where data,
                    be_when = p_when data, be_who = p_who data,
                    be_messages = p_messages data,
                    be_overall_feedback = p_overall_feedback data,
                    be_completed = p_completed data, be_user_id = user_id\<rparr>;
          db1 = db\<lparr>entries := entries db @ [entry]\<rparr>;
          db2 =
            (if list_all truthy [be_why entry, be_what entry, be_where entry, be_when entry, be_who entry]
             then
               (case find (\<lambda>p. phase_title p = ''Define Topic & Question'') (phases db1) of
                  None \<Rightarrow> db1
                | Some phase \<Rightarrow>
                    if \<not> list_ex (\<lambda>t. task_description t = ''Brainstorm Complete'') (phase_tasks db1 phase)
                    then
                      let new_task = \<lparr>task_id = next_id (map task_id (tasks db1)),
                                       task_phase_id = phase_id phase,
                                       task_user_id = user_id,
                                       task_description = ''Brainstorm Complete'',
                                       task_completed = True\<rparr>
                      in db1\<lparr>tasks := tasks db1 @ [new_task]\<rparr>
                    else db1)
             else db1)
      in (be_id entry, db2))"

text \<open>A sequence of save requests, each by some user, run one after the other.\<close>

fun run_saves :: "(uid \<times> brainstorm_payload) list \<Rightarrow> planning_db \<Rightarrow> planning_db" where
  "run_saves [] db = db"
| "run_saves ((u, data) # rest) db = run_saves rest (snd (save_brainstorm_session u data db))"

definition all_five :: "brainstorm_payload \<Rightarrow> bool" where
  "all_five data = list_all truthy [p_why data, p_what data, p_where data, p_when data, p_who data]"

definition brainstorm_complete_tasks :: "planning_db \<Rightarrow> nat \<Rightarrow> Task list" where
  "brainstorm_complete_tasks db pid =
     filter (\<lambda>t. task_phase_id t = pid \<and> task_description t = ''Brainstorm Complete'') (tasks db)"

section \<open>Dashboard: phase status\<close>

record status_rec =
  rec_id :: nat
  rec_title :: string
  rec_status :: string

definition desired_order :: "string list" where
  "desired_order =
     [''Define Topic & Question'', ''Literature Review'', ''Identify Gaps'',
      ''Plan Methodology'', ''Write & Revise'']"

text \<open>
  Times are wall-clock microseconds in the reference zone, counted from the start of day
  0; the deadline of a Phase is a day. The two datetimes the view compares carry the same
  \<^verbatim>\<open>tzinfo\<close> object, and Python then compares and subtracts their wall-clock values.
  \<open>end_of_day d\<close> is \<^verbatim>\<open>datetime.combine(d, datetime.max.time())\<close>, 23:59:59.999999 of day
  \<open>d\<close>.
\<close>

definition microseconds_per_day :: int where
  "microseconds_per_day = 86400000000"

definition end_of_day :: "int \<Rightarrow> int" where
  "end_of_day d = d * microseconds_per_day + (microseconds_per_day - 1)"

definition warning_threshold :: int where
  "warning_threshold = 7 * microseconds_per_day"

text \<open>
  \<^verbatim>\<open>{p.title: p for p in user_phases}\<close>: a later Phase of the same title replaces an
  earlier one.
\<close>

definition user_phase_map :: "Phase list \<Rightarrow> (string \<rightharpoonup> Phase)" where
  "user_phase_map user_phases = foldl (\<lambda>m p. m(phase_title p \<mapsto> p)) Map.empty user_phases"

text \<open>The status of a Phase that was found, from its tasks and its deadline.\<close>

definition phase_status :: "int \<Rightarrow> Phase \<Rightarrow> Task list \<Rightarrow> string" where
  "phase_status now phase ts =
     (if ts \<noteq> [] \<and> list_all task_completed ts then ''Completed''
      else
        (case phase_deadline phase of
           None \<Rightarrow> ''NotCompleted''
         | Some d \<Rightarrow>
             let deadline_dt = end_of_day d in
             if deadline_dt < now then ''Not Completed (Overdue)''
             else if deadline_dt - now \<le> warning_threshold
               then ''Not Completed (Deadline Approaching)''
               else ''NotCompleted''))"

text \<open>\<^verbatim>\<open>fetch_planning\<close>: one record per title of \<open>desired_order\<close>, in that order.\<close>

definition fetch_planning :: "uid \<Rightarrow> int \<Rightarrow> planning_db \<Rightarrow> status_rec list" where
  "fetch_planning u now db =
     (let user_phases = filter (\<lambda>p. phase_user_id p = u) (phases db);
          m = user_phase_map user_phases
      in map (\<lambda>(index, title).
                case m title of
                  Some phase \<Rightarrow>
                    \<lparr>rec_id = index + 1, rec_title = phase_title phase,
                     rec_status = phase_status now phase (phase_tasks db phase)\<rparr>
                | None \<Rightarrow>
                    \<lparr>rec_id = index + 1, rec_title = title, rec_status = ''NotCompleted''\<rparr>)
             (enumerate 0 desired_order))"

section \<open>Example states\<close>

text \<open>
  Two outline trees of user 1 (1 over 2 over 3, and 4 over 5) and a root of user 2.
\<close>

definition outline_db :: "Section list" where
  "outline_db =
    [\<lparr>sec_id = 1, sec_title = ''Intro'', sec_summary = None, sec_parent_id = None, sec_order = 0, sec_user_id = 1\<rparr>,
     \<lparr>sec_id = 2, sec_title = ''Scope'', sec_summary = None, sec_parent_id = Some 1, sec_order = 0, sec_user_id = 1\<rparr>,
     \<lparr>sec_id = 3, sec_title = ''Detail'', sec_summary = None, sec_parent_id = Some 2, sec_order = 0, sec_user_id = 1\<rparr>,
     \<lparr>sec_id = 4, sec_title = ''Method'', sec_summary = None, sec_parent_id = None, sec_order = 1, sec_user_id = 1\<rparr>,
     \<lparr>sec_id = 5, sec_title = ''Data'', sec_summary = None, sec_parent_id = Some 4, sec_order = 0, sec_user_id = 1\<rparr>,
     \<lparr>sec_id = 6, sec_title = ''Notes'', sec_summary = None, sec_parent_id = None, sec_order = 0, sec_user_id = 2\<rparr>]"

text \<open>
  The five canonical Phases of user 1: the first with one completed task, the second with
  no task, the others with one open task each and deadlines 3 days ahead of, 1 day before
  and 30 days ahead of day 100.
\<close>

definition dashboard_db :: planning_db where
  "dashboard_db =
     \<lparr>phases =
        [\<lparr>phase_id = 1, phase_title = ''Define Topic & Question'', phase_user_id = 1,
          phase_start_date = None, phase_end_date = None, phase_deadline = None\<rparr>,
         \<lparr>phase_id = 2, phase_title = ''Literature Review'', phase_user_id = 1,
          phase_start_date = None, phase_end_date = None, phase_deadline = None\<rparr>,
         \<lparr>phase_id = 3, phase_title = ''Identify Gaps'', phase_user_id = 1,
          phase_start_date = None, phase_end_date = None, phase_deadline = Some 103\<rparr>,
         \<lparr>phase_id = 4, phase_title = ''Plan Methodology'', phase_user_id = 1,
          phase_start_date = None, phase_end_date = None, phase_deadline = Some 99\<rparr>,
         \<lparr>phase_id = 5, phase_title = ''Write & Revise'', phase_user_id = 1,
          phase_start_date = None, phase_end_date = None, phase_deadline = Some 130\<rparr>],
      tasks =
        [\<lparr>task_id = 1, task_phase_id = 1, task_user_id = 1, task_description = ''Task1'',
          task_completed = True\<rparr>,
         \<lparr>task_id = 2, task_phase_id = 3, task_user_id = 1, task_description = ''Task1'',
          task_completed = False\<rparr>,
         \<lparr>task_id = 3, task_phase_id = 4, task_user_id = 1, task_description = ''Task1'',
          task_completed = False\<rparr>,
         \<lparr>task_id = 4, task_phase_id = 5, task_user_id = 1, task_description = ''Task1'',
          task_completed = False\<rparr>],
      entries = []\<rparr>"

definition noon_of_day_100 :: int where
  "noon_of_day_100 = 100 * microseconds_per_day + 43200000000"

section \<open>Outline: results\<close>

text \<open>
  C8. Saving an outline whose root sequence is empty or absent is rejected with the
  message "Cannot save empty outline!", and the stored Sections are exactly what they
  were: nothing is deleted and nothing is created.
\<close>

theorem save_outline_empty_rejected:
  "save_outline u None db = (Inl (BadRequest ''Cannot save empty outline!''), db) \<and>
   save_outline u (Some []) db = (Inl (BadRequest ''Cannot save empty outline!''), db)"
  by (simp add: save_outline_def)

subsection \<open>Deleting a subtree\<close>

lemma delete_subset:
  "delete_subtree k n rows = Some r \<Longrightarrow> set r \<subseteq> set rows"
  "delete_each k cs rows = Some r \<Longrightarrow> set r \<subseteq> set rows"
  by (induction k n rows and k cs rows arbitrary: r and r rule: delete_subtree_delete_each.induct)
     (fastforce split: option.splits)+

lemma delete_fuel_mono:
  "delete_subtree k n rows = Some r \<Longrightarrow> delete_subtree (k + j) n rows = Some r"
  "delete_each k cs rows = Some r \<Longrightarrow> delete_each (k + j) cs rows = Some r"
  by (induction k n rows and k cs rows arbitrary: r and r rule: delete_subtree_delete_each.induct)
     (auto split: option.splits)

lemma child_rel_mono: "set r \<subseteq> set rows \<Longrightarrow> child_rel r \<subseteq> child_rel rows"
  by (auto simp: child_rel_def)

lemma finite_child_rel: "finite (child_rel rows)"
proof -
  have "child_rel rows \<subseteq> (\<lambda>s. (the (sec_parent_id s), sec_id s)) ` set rows"
    by (force simp: child_rel_def)
  then show ?thesis by (rule finite_surj[rotated]) simp
qed

lemma subtree_closure_step:
  assumes "R `` D \<subseteq> D"
  shows "D \<union> R\<^sup>* `` (R `` {n} - D) \<union> {n} = D \<union> R\<^sup>* `` {n}"
proof -
  have closed: "R\<^sup>* `` D = D"
    using assms by (rule Image_closed_trancl)
  have "x \<in> D \<union> R\<^sup>* `` (R `` {n} - D) \<union> {n}" if "(n, x) \<in> R\<^sup>*" for x
    using that
  proof (cases rule: converse_rtranclE)
    case base
    then show ?thesis by simp
  next
    case (step c)
    show ?thesis
    proof (cases "c \<in> D")
      case True
      with step(2) have "x \<in> R\<^sup>* `` D" by blast
      with closed show ?thesis by simp
    next
      case False
      with step show ?thesis by blast
    qed
  qed
  moreover have "(n, x) \<in> R\<^sup>*" if "x \<in> R\<^sup>* `` (R `` {n} - D)" for x
    using that by (auto intro: converse_rtrancl_into_rtrancl)
  ultimately show ?thesis by blast
qed

lemma closed_union_reach:
  assumes "R `` D \<subseteq> D"
  shows "R `` (D \<union> R\<^sup>* `` X) \<subseteq> D \<union> R\<^sup>* `` X"
  using assms by (auto intro: rtrancl_into_rtrancl)

lemma children_ids:
  "set (map sec_id (subsections (filter (\<lambda>s. sec_id s \<notin> D) rows0) n)) = child_rel rows0 `` {n} - D"
  by (auto simp: subsections_def child_rel_def)

lemma delete_result:
  "delete_subtree k n rows = Some r \<Longrightarrow> child_rel rows0 `` D \<subseteq> D \<Longrightarrow>
     rows = filter (\<lambda>s. sec_id s \<notin> D) rows0 \<Longrightarrow>
     r = filter (\<lambda>s. sec_id s \<notin> D \<union> (child_rel rows0)\<^sup>* `` {n}) rows0"
  "delete_each k cs rows = Some r \<Longrightarrow> child_rel rows0 `` D \<subseteq> D \<Longrightarrow>
     rows = filter (\<lambda>s. sec_id s \<notin> D) rows0 \<Longrightarrow>
     r = filter (\<lambda>s. sec_id s \<notin> D \<union> (child_rel rows0)\<^sup>* `` set cs) rows0"
proof (induction k n rows and k cs rows arbitrary: r D and r D rule: delete_subtree_delete_each.induct)
  case (1 node rows)
  then show ?case by simp
next
  case (2 k node rows)
  let ?R = "child_rel rows0"
  let ?cs = "map sec_id (subsections rows node)"
  from "2.prems"(1) obtain r1 where r1: "delete_each k ?cs rows = Some r1"
    and r: "r = filter (\<lambda>s. sec_id s \<noteq> node) r1"
    by (auto split: option.splits)
  have "r1 = filter (\<lambda>s. sec_id s \<notin> D \<union> ?R\<^sup>* `` set ?cs) rows0"
    using "2.IH"[OF r1 "2.prems"(2,3)] .
  moreover have "set ?cs = ?R `` {node} - D"
    unfolding "2.prems"(3) by (rule children_ids)
  ultimately have "r = filter (\<lambda>s. sec_id s \<notin> D \<union> ?R\<^sup>* `` (?R `` {node} - D) \<union> {node}) rows0"
    using r by (auto intro: filter_cong)
  then show ?case
    by (simp only: subtree_closure_step[OF "2.prems"(2)])
next
  case (3 k rows)
  then show ?case by simp
next
  case (4 k child cs rows)
  let ?R = "child_rel rows0"
  from "4.prems"(1) obtain r1 where r1: "delete_subtree k child rows = Some r1"
    and r: "delete_each k cs r1 = Some r"
    by (auto split: option.splits)
  have e1: "r1 = filter (\<lambda>s. sec_id s \<notin> D \<union> ?R\<^sup>* `` {child}) rows0"
    using "4.IH"(1)[OF r1 "4.prems"(2,3)] .
  have "r = filter (\<lambda>s. sec_id s \<notin> (D \<union> ?R\<^sup>* `` {child}) \<union> ?R\<^sup>* `` set cs) rows0"
    using "4.IH"(2)[OF r1 r closed_union_reach[OF "4.prems"(2)] e1] .
  moreover have "(D \<union> ?R\<^sup>* `` {child}) \<union> ?R\<^sup>* `` set cs = D \<union> ?R\<^sup>* `` set (child # cs)"
    by auto
  ultimately show ?case by simp
qed

lemma delete_fuel_le:
  "delete_subtree k n rows = Some r \<Longrightarrow> k \<le> k' \<Longrightarrow> delete_subtree k' n rows = Some r"
  "delete_each k cs rows = Some r \<Longrightarrow> k \<le> k' \<Longrightarrow> delete_each k' cs rows = Some r"
  using delete_fuel_mono(1)[of k n rows r "k' - k"] delete_fuel_mono(2)[of k cs rows r "k' - k"]
  by simp_all

lemma delete_terminates:
  assumes acyc: "acyclic (child_rel rows0)"
  shows "child_rel rows \<subseteq> child_rel rows0 \<Longrightarrow> \<exists>k r. delete_subtree k n rows = Some r"
proof -
  let ?R = "child_rel rows0"
  have wf: "wf (?R\<inverse>)"
    using finite_child_rel acyc by (rule finite_acyclic_wf_converse)
  show "child_rel rows \<subseteq> ?R \<Longrightarrow> \<exists>k r. delete_subtree k n rows = Some r"
    using wf
  proof (induction n arbitrary: rows rule: wf_induct_rule)
    case (less n)
    have each: "\<exists>k r. delete_each k cs rows' = Some r"
      if "set cs \<subseteq> ?R `` {n}" "child_rel rows' \<subseteq> ?R" for cs rows'
      using that
    proof (induction cs arbitrary: rows')
      case Nil
      then show ?case by simp
    next
      case (Cons c cs)
      from Cons.prems(1) have "(c, n) \<in> ?R\<inverse>" by simp
      from less.IH[OF this Cons.prems(2)]
      obtain k1 r1 where r1: "delete_subtree k1 c rows' = Some r1" by blast
      have "child_rel r1 \<subseteq> ?R"
        using child_rel_mono[OF delete_subset(1)[OF r1]] Cons.prems(2) by blast
      with Cons.IH[of r1] Cons.prems(1)
      obtain k2 r where r: "delete_each k2 cs r1 = Some r" by auto
      have "delete_subtree (max k1 k2) c rows' = Some r1"
        using delete_fuel_le(1)[OF r1] by simp
      moreover have "delete_each (max k1 k2) cs r1 = Some r"
        using delete_fuel_le(2)[OF r] by simp
      ultimately have "delete_each (max k1 k2) (c # cs) rows' = Some r" by simp
      then show ?case by blast
    qed
    have "set (map sec_id (subsections rows n)) \<subseteq> child_rel rows `` {n}"
      by (auto simp: subsections_def child_rel_def)
    with less.prems have "set (map sec_id (subsections rows n)) \<subseteq> ?R `` {n}"
      by blast
    from each[OF this less.prems]
    obtain k r where "delete_each k (map sec_id (subsections rows n)) rows = Some r" by blast
    then have "delete_subtree (Suc k) n rows = Some (filter (\<lambda>s. sec_id s \<noteq> n) r)" by simp
    then show ?case by blast
  qed
qed

lemma delete_subtree_exact:
  assumes "delete_subtree k n rows = Some r"
  shows "r = filter (\<lambda>s. sec_id s \<notin> subtree rows n) rows"
  using delete_result(1)[OF assms, of rows "{}"] by (simp add: subtree_def)

lemma acyclic_child_rel_if_increasing:
  assumes "list_all (\<lambda>s. case sec_parent_id s of None \<Rightarrow> True | Some p \<Rightarrow> p < sec_id s) rows"
  shows "acyclic (child_rel rows)"
proof -
  have "child_rel rows \<subseteq> less_than"
    using assms by (auto simp: child_rel_def list_all_iff)
  moreover have "acyclic less_than"
    by (rule wf_acyclic) (rule wf_less_than)
  ultimately show ?thesis by (rule acyclic_subset[rotated])
qed

text \<open>
  C7. Deleting a node by identifier and owner signals not-found, and changes nothing,
  when no Section has that identifier and that owner. Otherwise, in a table whose parent
  links have no cycle, the recursion ends within some depth, and from that depth on the
  request succeeds and leaves exactly the Sections outside the node's subtree, each
  unchanged and in its place: the node and all its transitive descendants are gone,
  nothing else is.
\<close>

theorem delete_outline_removes_subtree:
  "(\<not> (\<exists>s \<in> set db. sec_id s = sid \<and> sec_user_id s = u) \<longrightarrow>
      (\<forall>limit. delete_outline limit sid u db = (Inl NotFound, db))) \<and>
   ((\<exists>s \<in> set db. sec_id s = sid \<and> sec_user_id s = u) \<and> acyclic (child_rel db) \<longrightarrow>
      (\<exists>k0. \<forall>limit \<ge> k0. delete_outline limit sid u db =
         (Inr (), filter (\<lambda>s. sec_id s \<notin> subtree db sid) db)))"
proof (intro conjI impI allI)
  fix limit
  assume "\<not> (\<exists>s \<in> set db. sec_id s = sid \<and> sec_user_id s = u)"
  then have "find (\<lambda>s. sec_id s = sid \<and> sec_user_id s = u) db = None"
    by (simp add: find_None_iff)
  then show "delete_outline limit sid u db = (Inl NotFound, db)"
    by (simp add: delete_outline_def begin_session_def)
next
  assume a: "(\<exists>s \<in> set db. sec_id s = sid \<and> sec_user_id s = u) \<and> acyclic (child_rel db)"
  then obtain sec where f: "find (\<lambda>s. sec_id s = sid \<and> sec_user_id s = u) db = Some sec"
    by (cases "find (\<lambda>s. sec_id s = sid \<and> sec_user_id s = u) db") (auto simp: find_None_iff)
  then have sid: "sec_id sec = sid"
    by (auto simp: find_Some_iff)
  from a delete_terminates[of db db sid]
  obtain k0 r where r: "delete_subtree k0 sid db = Some r" by blast
  have "delete_outline limit sid u db = (Inr (), filter (\<lambda>s. sec_id s \<notin> subtree db sid) db)"
    if "k0 \<le> limit" for limit
  proof -
    have "delete_subtree limit sid db = Some r"
      using delete_fuel_le(1)[OF r that] .
    moreover from delete_subtree_exact[OF r]
    have "r = filter (\<lambda>s. sec_id s \<notin> subtree db sid) db" .
    ultimately show ?thesis
      using f sid by (simp add: delete_outline_def begin_session_def commit_def)
  qed
  then show "\<exists>k0. \<forall>limit \<ge> k0. delete_outline limit sid u db =
         (Inr (), filter (\<lambda>s. sec_id s \<notin> subtree db sid) db)"
    by blast
qed

lemma outline_db_acyclic: "acyclic (child_rel outline_db)"
  by (rule acyclic_child_rel_if_increasing) (simp add: outline_db_def)

lemma outline_db_delete_run:
  "delete_outline 4 1 1 outline_db = (Inr (), drop 3 outline_db)"
  by (simp add: delete_outline_def begin_session_def commit_def outline_db_def subsections_def
      eval_nat_numeral)

theorem delete_outline_removes_subtree_witness:
  "delete_outline 4 1 2 outline_db = (Inl NotFound, outline_db) \<and>
   delete_outline 4 7 1 outline_db = (Inl NotFound, outline_db) \<and>
   acyclic (child_rel outline_db) \<and>
   filter (\<lambda>s. sec_id s \<notin> subtree outline_db 1) outline_db = drop 3 outline_db"
proof -
  have nf1: "\<not> (\<exists>s \<in> set outline_db. sec_id s = 1 \<and> sec_user_id s = 2)"
    by (simp add: outline_db_def)
  have nf2: "\<not> (\<exists>s \<in> set outline_db. sec_id s = 7 \<and> sec_user_id s = 1)"
    by (simp add: outline_db_def)
  have ex: "\<exists>s \<in> set outline_db. sec_id s = 1 \<and> sec_user_id s = 1"
    by (simp add: outline_db_def)
  from delete_outline_removes_subtree[of outline_db 1 1] ex outline_db_acyclic
  obtain k0 where k0: "\<forall>limit \<ge> k0. delete_outline limit 1 1 outline_db =
         (Inr (), filter (\<lambda>s. sec_id s \<notin> subtree outline_db 1) outline_db)"
    by blast
  have "delete_subtree 4 1 outline_db = Some (drop 3 outline_db)"
    by (simp add: outline_db_def subsections_def eval_nat_numeral)
  then have "delete_subtree (max k0 4) 1 outline_db = Some (drop 3 outline_db)"
    by (rule delete_fuel_le(1)) simp
  then have "delete_outline (max k0 4) 1 1 outline_db = (Inr (), drop 3 outline_db)"
    by (simp add: delete_outline_def begin_session_def commit_def outline_db_def)
  with k0 have "filter (\<lambda>s. sec_id s \<notin> subtree outline_db 1) outline_db = drop 3 outline_db"
    by (metis max.cobounded1 prod.inject)
  then show ?thesis
    using delete_outline_removes_subtree[of outline_db 1 2] delete_outline_removes_subtree[of outline_db 7 1]
      nf1 nf2 outline_db_acyclic by blast
qed

subsection \<open>Saving an outline\<close>

lemma recreate_appends:
  "recreate_loop idx items u parent rows = Inr rows' \<Longrightarrow>
     \<exists>new. rows' = rows @ new \<and> list_all (\<lambda>s. sec_user_id s = u) new"
  "recreate_children cs u pid rows = Inr rows' \<Longrightarrow>
     \<exists>new. rows' = rows @ new \<and> list_all (\<lambda>s. sec_user_id s = u) new"
proof (induction idx items u parent rows and cs u pid rows arbitrary: rows' and rows'
    rule: recreate_loop_recreate_children.induct)
  case (1 idx user_id parent_id rows)
  then show ?case by simp
next
  case (2 idx title summary subsections rest user_id parent_id rows)
  from "2.prems" obtain t where t: "title = Some t"
    by (cases title) auto
  let ?sec = "\<lparr>sec_id = fresh_id rows, sec_title = t, sec_summary = summary,
                sec_parent_id = parent_id, sec_order = idx, sec_user_id = user_id\<rparr>"
  from "2.prems" t obtain r1 where
    r1: "recreate_children subsections user_id (sec_id ?sec) (rows @ [?sec]) = Inr r1"
    and r2: "recreate_loop (idx + 1) rest user_id parent_id r1 = Inr rows'"
    by (auto simp: Let_def split: sum.splits)
  from "2.IH"(1)[OF t refl r1] obtain n1 where
    n1: "r1 = (rows @ [?sec]) @ n1" "list_all (\<lambda>s. sec_user_id s = user_id) n1" by blast
  from "2.IH"(2)[OF t refl r1 r2] obtain n2 where
    n2: "rows' = r1 @ n2" "list_all (\<lambda>s. sec_user_id s = user_id) n2" by blast
  have "rows' = rows @ (?sec # n1 @ n2)" using n1 n2 by simp
  moreover have "list_all (\<lambda>s. sec_user_id s = user_id) (?sec # n1 @ n2)"
    using n1 n2 by simp
  ultimately show ?case by blast
next
  case (3 user_id pid rows)
  then show ?case by simp
next
  case (4 child cs user_id pid rows)
  from "4.prems" obtain r1 where
    r1: "recreate_loop 0 [child] user_id (Some pid) rows = Inr r1"
    and r2: "recreate_children cs user_id pid r1 = Inr rows'"
    by (auto split: sum.splits)
  from "4.IH"(1)[OF r1] obtain n1 where
    n1: "r1 = rows @ n1" "list_all (\<lambda>s. sec_user_id s = user_id) n1" by blast
  from "4.IH"(2)[OF r1 r2] obtain n2 where
    n2: "rows' = r1 @ n2" "list_all (\<lambda>s. sec_user_id s = user_id) n2" by blast
  have "rows' = rows @ (n1 @ n2)" using n1 n2 by simp
  moreover have "list_all (\<lambda>s. sec_user_id s = user_id) (n1 @ n2)"
    using n1 n2 by simp
  ultimately show ?case by blast
qed

lemma recreate_error: "recreate_loop idx items u parent rows = Inl e \<Longrightarrow> e = InternalError"
  "recreate_children cs u pid rows = Inl e \<Longrightarrow> e = InternalError"
  by (induction idx items u parent rows and cs u pid rows
      rule: recreate_loop_recreate_children.induct)
     (auto simp: Let_def split: option.splits sum.splits)

text \<open>
  C1, as amended. The save is two transactions, not one: the deletion of the owner's
  Sections is committed before the tree is recreated. When recreating the tree fails,
  no part of the new tree is committed, but the owner's earlier Sections are gone: the
  table is the old one without the owner's rows. In every case the Sections of every
  other owner are what they were.
\<close>

theorem save_outline_commits_delete_first:
  "(fst (save_outline u payload db) = Inl InternalError \<longrightarrow>
      snd (save_outline u payload db) = filter (\<lambda>s. sec_user_id s \<noteq> u) db) \<and>
   filter (\<lambda>s. sec_user_id s \<noteq> u) (snd (save_outline u payload db)) =
     filter (\<lambda>s. sec_user_id s \<noteq> u) db"
proof (cases "(case payload of None \<Rightarrow> [] | Some xs \<Rightarrow> xs) = []")
  case True
  then show ?thesis by (simp add: save_outline_def)
next
  case False
  let ?outline = "case payload of None \<Rightarrow> [] | Some xs \<Rightarrow> xs"
  let ?kept = "filter (\<lambda>s. sec_user_id s \<noteq> u) db"
  show ?thesis
  proof (cases "recreate_sections ?outline u None ?kept")
    case (Inl e)
    with False show ?thesis
      by (simp add: save_outline_def begin_session_def commit_def rollback_def delete_by_user_def)
  next
    case (Inr rows)
    then obtain new where "rows = ?kept @ new" "list_all (\<lambda>s. sec_user_id s = u) new"
      using recreate_appends(1) unfolding recreate_sections_def by blast
    then have "filter (\<lambda>s. sec_user_id s \<noteq> u) rows = ?kept"
      by (simp add: list_all_iff)
    with Inr False show ?thesis
      by (simp add: save_outline_def begin_session_def commit_def delete_by_user_def)
  qed
qed

text \<open>
  C1 as stated fails: user 1 owns five Sections, saves an outline whose nested descriptor
  has no title, the request fails, and the five Sections are gone.
\<close>

theorem save_outline_not_atomic:
  "save_outline 1 (Some [Item (Some ''New'') None [Item None None []]]) outline_db =
     (Inl InternalError, drop 5 outline_db) \<and>
   drop 5 outline_db \<noteq> outline_db"
  by (simp add: save_outline_def recreate_sections_def begin_session_def commit_def rollback_def
      delete_by_user_def fresh_id_def outline_db_def)

theorem save_outline_commits_delete_first_witness:
  "fst (save_outline 1 (Some [Item (Some ''New'') None [Item None None []]]) outline_db) = Inl InternalError \<and>
   snd (save_outline 1 (Some [Item (Some ''New'') None [Item None None []]]) outline_db) =
     filter (\<lambda>s. sec_user_id s \<noteq> 1) outline_db \<and>
   filter (\<lambda>s. sec_user_id s \<noteq> 1) outline_db = drop 5 outline_db"
proof -
  have f: "fst (save_outline 1 (Some [Item (Some ''New'') None [Item None None []]]) outline_db) = Inl InternalError"
    by (simp add: save_outline_def recreate_sections_def begin_session_def commit_def rollback_def
      delete_by_user_def fresh_id_def outline_db_def)
  moreover have "filter (\<lambda>s. sec_user_id s \<noteq> 1) outline_db = drop 5 outline_db"
    by (simp add: outline_db_def)
  ultimately show ?thesis
    using save_outline_commits_delete_first[of 1 "Some [Item (Some ''New'') None [Item None None []]]" outline_db]
    by blast
qed

text \<open>
  C2 on the input where it fails: a root with two children. Each child is passed to the
  recursive call as a one-element list, so its position is enumerated as 0: the second
  child is stored with order 0 where its position among its siblings is 1.
\<close>

theorem recreate_sections_second_child_order:
  "save_outline 1 (Some [Item (Some ''A'') None
       [Item (Some ''A.1'') None [], Item (Some ''A.2'') None []]]) [] =
     (Inr ''Outline saved'',
      [\<lparr>sec_id = 1, sec_title = ''A'', sec_summary = None, sec_parent_id = None, sec_order = 0, sec_user_id = 1\<rparr>,
       \<lparr>sec_id = 2, sec_title = ''A.1'', sec_summary = None, sec_parent_id = Some 1, sec_order = 0, sec_user_id = 1\<rparr>,
       \<lparr>sec_id = 3, sec_title = ''A.2'', sec_summary = None, sec_parent_id = Some 1, sec_order = 0, sec_user_id = 1\<rparr>])"
  by (simp add: save_outline_def recreate_sections_def begin_session_def commit_def
      delete_by_user_def fresh_id_def)

subsection \<open>Dashboard\<close>

lemma user_phase_map_snoc:
  "user_phase_map (ps @ [x]) = (user_phase_map ps)(phase_title x \<mapsto> x)"
  by (simp add: user_phase_map_def)

lemma user_phase_map_title:
  "user_phase_map ps t = Some p \<Longrightarrow> phase_title p = t \<and> p \<in> set ps"
proof (induction ps rule: rev_induct)
  case Nil
  then show ?case by (simp add: user_phase_map_def)
next
  case (snoc x xs)
  then show ?case
    by (auto simp: user_phase_map_snoc split: if_splits)
qed

lemma fetch_planning_nth:
  assumes "i < length desired_order"
  shows "fetch_planning u now db ! i =
    (case user_phase_map (filter (\<lambda>p. phase_user_id p = u) (phases db)) (desired_order ! i) of
       Some phase \<Rightarrow>
         \<lparr>rec_id = i + 1, rec_title = phase_title phase,
          rec_status = phase_status now phase (phase_tasks db phase)\<rparr>
     | None \<Rightarrow> \<lparr>rec_id = i + 1, rec_title = desired_order ! i, rec_status = ''NotCompleted''\<rparr>)"
  using assms by (simp add: fetch_planning_def Let_def nth_enumerate_eq)

lemma fetch_planning_nth_title:
  assumes "i < length desired_order"
  shows "rec_title (fetch_planning u now db ! i) = desired_order ! i"
    and "rec_id (fetch_planning u now db ! i) = i + 1"
  using assms user_phase_map_title
  by (auto simp: fetch_planning_nth split: option.splits)

lemma length_fetch_planning: "length (fetch_planning u now db) = length desired_order"
  by (simp add: fetch_planning_def Let_def)

text \<open>
  C6. For every owner, every time and every state of the tables (an owner without Phases
  included), the dashboard returns exactly five records, whose titles are the five
  canonical titles in their fixed order and whose identifiers are 1 to 5, the positions
  in that list: neither depends on the rows stored.
\<close>

theorem fetch_planning_five_in_order:
  "length (fetch_planning u now db) = 5 \<and>
   map rec_title (fetch_planning u now db) = desired_order \<and>
   map rec_id (fetch_planning u now db) = [1, 2, 3, 4, 5]"
proof -
  have ld: "length desired_order = 5"
    by (simp add: desired_order_def)
  have len: "length (fetch_planning u now db) = 5"
    by (simp add: length_fetch_planning ld)
  have "map rec_title (fetch_planning u now db) = desired_order"
    by (rule nth_equalityI) (simp_all add: length_fetch_planning fetch_planning_nth_title)
  moreover have "map rec_id (fetch_planning u now db) = map (\<lambda>i. i + 1) [0..<5]"
    by (rule nth_equalityI)
       (simp_all add: len ld fetch_planning_nth_title del: upt_Suc)
  moreover have "map (\<lambda>i. i + 1) [0..<5] = [1, 2, 3, 4, 5::nat]"
    by (simp add: upt_rec)
  ultimately show ?thesis using len by simp
qed

lemma phase_status_completed_iff:
  "phase_status now p ts = ''Completed'' \<longleftrightarrow> ts \<noteq> [] \<and> list_all task_completed ts"
  by (simp add: phase_status_def Let_def split: option.splits)

text \<open>
  C4. The status derived for a Phase is "Completed" if and only if the Phase has at least
  one Task and all its Tasks are completed; with no Task it is never "Completed". The
  same holds of each record the dashboard returns: its status is "Completed" exactly when
  the owner has a Phase of that title with at least one Task, all completed.
\<close>

theorem phase_completed_iff:
  "(phase_status now p ts = ''Completed'' \<longleftrightarrow> ts \<noteq> [] \<and> list_all task_completed ts) \<and>
   phase_status now p [] \<noteq> ''Completed'' \<and>
   (i < length desired_order \<longrightarrow>
      (rec_status (fetch_planning u now db ! i) = ''Completed'' \<longleftrightarrow>
         (\<exists>phase. user_phase_map (filter (\<lambda>p. phase_user_id p = u) (phases db)) (desired_order ! i)
              = Some phase \<and>
            phase_tasks db phase \<noteq> [] \<and> list_all task_completed (phase_tasks db phase))))"
  by (auto simp: phase_status_completed_iff fetch_planning_nth split: option.splits)

theorem phase_completed_iff_witness:
  "(0::nat) < length desired_order \<and> (1::nat) < length desired_order \<and>
   rec_status (fetch_planning 1 noon_of_day_100 dashboard_db ! 0) = ''Completed'' \<and>
   phase_tasks dashboard_db (phases dashboard_db ! 1) = [] \<and>
   rec_status (fetch_planning 1 noon_of_day_100 dashboard_db ! 1) = ''NotCompleted''"
proof -
  have l: "(0::nat) < length desired_order" "(1::nat) < length desired_order"
    by (simp_all add: desired_order_def)
  have m: "user_phase_map (filter (\<lambda>p. phase_user_id p = 1) (phases dashboard_db)) (desired_order ! 0)
      = Some (phases dashboard_db ! 0)"
    by (simp add: dashboard_db_def user_phase_map_def desired_order_def)
  have t: "phase_tasks dashboard_db (phases dashboard_db ! 0) \<noteq> []"
    "list_all task_completed (phase_tasks dashboard_db (phases dashboard_db ! 0))"
    by (simp_all add: dashboard_db_def phase_tasks_def)
  have c: "rec_status (fetch_planning 1 noon_of_day_100 dashboard_db ! 0) = ''Completed''"
    using phase_completed_iff[of noon_of_day_100 "phases dashboard_db ! 0" "[]" 0 1 dashboard_db] l m t
    by blast
  have e: "phase_tasks dashboard_db (phases dashboard_db ! 1) = []"
    by (simp add: dashboard_db_def phase_tasks_def)
  have "rec_status (fetch_planning 1 noon_of_day_100 dashboard_db ! 1) = ''NotCompleted''"
    by (simp add: fetch_planning_nth l dashboard_db_def user_phase_map_def desired_order_def
        phase_status_def phase_tasks_def)
  with l c e show ?thesis by simp
qed

text \<open>
  C5. For a Phase that is not fully completed (no Task, or some Task open) the status
  follows the deadline: without deadline it is "NotCompleted"; when the end of the
  deadline's day (its last microsecond, on the reference zone's clock) is before now it
  is "Not Completed (Overdue)"; otherwise, when that end of day is at most 7 days after
  now, it is "Not Completed (Deadline Approaching)"; otherwise "NotCompleted". This is
  the status the dashboard returns for the Phase found under a title.
\<close>

theorem phase_status_by_deadline:
  assumes "\<not> (ts \<noteq> [] \<and> list_all task_completed ts)"
  shows "(phase_deadline p = None \<longrightarrow> phase_status now p ts = ''NotCompleted'') \<and>
    (\<forall>d. phase_deadline p = Some d \<longrightarrow>
       (end_of_day d < now \<longrightarrow> phase_status now p ts = ''Not Completed (Overdue)'') \<and>
       (now \<le> end_of_day d \<and> end_of_day d \<le> now + warning_threshold \<longrightarrow>
          phase_status now p ts = ''Not Completed (Deadline Approaching)'') \<and>
       (now + warning_threshold < end_of_day d \<longrightarrow> phase_status now p ts = ''NotCompleted'')) \<and>
    (\<forall>d. end_of_day d = (d + 1) * 86400000000 - 1) \<and>
    warning_threshold = 7 * 86400000000 \<and>
    (\<forall>i u db. i < length desired_order \<and>
       user_phase_map (filter (\<lambda>p. phase_user_id p = u) (phases db)) (desired_order ! i) = Some p \<longrightarrow>
       rec_status (fetch_planning u now db ! i) = phase_status now p (phase_tasks db p))"
proof (intro conjI allI impI)
  show "phase_status now p ts = ''NotCompleted''" if "phase_deadline p = None"
    using assms that by (simp add: phase_status_def)
next
  fix d
  assume d: "phase_deadline p = Some d"
  show "phase_status now p ts = ''Not Completed (Overdue)''" if "end_of_day d < now"
    using assms d that by (simp add: phase_status_def)
  show "phase_status now p ts = ''Not Completed (Deadline Approaching)''"
    if "now \<le> end_of_day d \<and> end_of_day d \<le> now + warning_threshold"
    using assms d that by (simp add: phase_status_def Let_def)
  show "phase_status now p ts = ''NotCompleted''" if "now + warning_threshold < end_of_day d"
  proof -
    have "0 \<le> warning_threshold"
      by (simp add: warning_threshold_def microseconds_per_day_def)
    with that have "\<not> end_of_day d < now" "\<not> end_of_day d - now \<le> warning_threshold"
      by linarith+
    with assms d show ?thesis by (simp add: phase_status_def Let_def)
  qed
next
  fix d :: int
  show "end_of_day d = (d + 1) * 86400000000 - 1"
    by (simp add: end_of_day_def microseconds_per_day_def algebra_simps)
next
  show "warning_threshold = 7 * 86400000000"
    by (simp add: warning_threshold_def microseconds_per_day_def)
next
  fix i u and db :: planning_db
  assume "i < length desired_order \<and>
    user_phase_map (filter (\<lambda>p. phase_user_id p = u) (phases db)) (desired_order ! i) = Some p"
  then show "rec_status (fetch_planning u now db ! i) = phase_status now p (phase_tasks db p)"
    by (simp add: fetch_planning_nth)
qed

theorem phase_status_by_deadline_witness:
  "\<not> (phase_tasks dashboard_db (phases dashboard_db ! 2) \<noteq> [] \<and>
      list_all task_completed (phase_tasks dashboard_db (phases dashboard_db ! 2))) \<and>
   phase_status noon_of_day_100 (phases dashboard_db ! 1)
     (phase_tasks dashboard_db (phases dashboard_db ! 1)) = ''NotCompleted'' \<and>
   phase_status noon_of_day_100 (phases dashboard_db ! 2)
     (phase_tasks dashboard_db (phases dashboard_db ! 2)) = ''Not Completed (Deadline Approaching)'' \<and>
   phase_status noon_of_day_100 (phases dashboard_db ! 3)
     (phase_tasks dashboard_db (phases dashboard_db ! 3)) = ''Not Completed (Overdue)'' \<and>
   phase_status noon_of_day_100 (phases dashboard_db ! 4)
     (phase_tasks dashboard_db (phases dashboard_db ! 4)) = ''NotCompleted''"
proof -
  let ?ts = "\<lambda>k. phase_tasks dashboard_db (phases dashboard_db ! k)"
  have inc: "\<not> (?ts k \<noteq> [] \<and> list_all task_completed (?ts k))" if "k \<in> {1, 2, 3, 4}" for k
    using that by (auto simp: dashboard_db_def phase_tasks_def)
  have d: "phase_deadline (phases dashboard_db ! 1) = None"
    "phase_deadline (phases dashboard_db ! 2) = Some 103"
    "phase_deadline (phases dashboard_db ! 3) = Some 99"
    "phase_deadline (phases dashboard_db ! 4) = Some 130"
    by (simp_all add: dashboard_db_def)
  have t: "noon_of_day_100 \<le> end_of_day 103 \<and> end_of_day 103 \<le> noon_of_day_100 + warning_threshold"
    "end_of_day 99 < noon_of_day_100"
    "noon_of_day_100 + warning_threshold < end_of_day 130"
    by (simp_all add: noon_of_day_100_def end_of_day_def warning_threshold_def microseconds_per_day_def)
  have "phase_status noon_of_day_100 (phases dashboard_db ! 1) (?ts 1) = ''NotCompleted''"
    using phase_status_by_deadline[OF inc[of 1], of "phases dashboard_db ! 1" noon_of_day_100] d
    by simp
  moreover have "phase_status noon_of_day_100 (phases dashboard_db ! 2) (?ts 2)
      = ''Not Completed (Deadline Approaching)''"
    using phase_status_by_deadline[OF inc[of 2], of "phases dashboard_db ! 2" noon_of_day_100] d t
    by simp
  moreover have "phase_status noon_of_day_100 (phases dashboard_db ! 3) (?ts 3)
      = ''Not Completed (Overdue)''"
    using phase_status_by_deadline[OF inc[of 3], of "phases dashboard_db ! 3" noon_of_day_100] d t
    by simp
  moreover have "phase_status noon_of_day_100 (phases dashboard_db ! 4) (?ts 4) = ''NotCompleted''"
    using phase_status_by_deadline[OF inc[of 4], of "phases dashboard_db ! 4" noon_of_day_100] d t
    by simp
  ultimately show ?thesis using inc[of 2] by simp
qed

end
